theory Spec2Isabelle
  imports
    Main
    "HOL-Library.AList"
    "HOL-Library.Sublist"
    "HOL-Library.Char_ord"
    "HOL-Library.List_Lexorder"
begin

section \<open>The task slice: data model\<close>

text \<open>
  The development follows \<^verbatim>\<open>features/tasks/tasksSlice.ts\<close>. JavaScript numbers that
  hold identifiers, counters and array indices are integers in every run of the program and
  are modelled by \<^typ>\<open>int\<close> and \<^typ>\<open>nat\<close>; strings are lists of code units in the
  range U+0000 .. U+00FF, compared code unit by code unit as JavaScript compares them.
\<close>

datatype TaskCategory = Work | Personal | Shopping | Health | Finance | Other

datatype TaskPriority = High | Medium | Low

datatype TaskStatus = Pending | Completed

text \<open>\<^verbatim>\<open>Omit<Task, 'id'>\<close>: the payload of \<^verbatim>\<open>addTask\<close>.\<close>

record TaskFields =
  title :: string
  status :: TaskStatus
  deadline :: string
  category :: TaskCategory
  priority :: TaskPriority

text \<open>\<^verbatim>\<open>interface Task\<close>; the field \<^verbatim>\<open>id\<close> is called \<open>task_id\<close> here.\<close>

record Task = TaskFields +
  task_id :: int

text \<open>
  \<^verbatim>\<open>Partial<Task> & { id: number }\<close>: the payload of \<^verbatim>\<open>updateTask\<close>. A field that
  the payload object does not carry is \<open>None\<close>.
\<close>

record TaskPatch =
  patch_id :: int
  patch_title :: "string option"
  patch_status :: "TaskStatus option"
  patch_deadline :: "string option"
  patch_category :: "TaskCategory option"
  patch_priority :: "TaskPriority option"

text \<open>\<^verbatim>\<open>interface TasksState\<close>.\<close>

record TasksState =
  tasks :: "Task list"
  nextId :: int
  deletedIds :: "int list"

subsection \<open>localStorage\<close>

text \<open>
  The slice stores two items: \<^verbatim>\<open>JSON.stringify(state.tasks)\<close> under the key
  \<^verbatim>\<open>'tasks'\<close> and \<^verbatim>\<open>state.nextId.toString()\<close> under \<^verbatim>\<open>'nextId'\<close>. An item is
  represented by the value it parses back to. \<open>setItem_calls\<close> records every call of
  \<^verbatim>\<open>setItem\<close> in order, the way the \<^verbatim>\<open>jest.fn()\<close> mock of the slice's tests does;
  \<open>throwing\<close> says that \<^verbatim>\<open>setItem\<close> throws (quota exceeded, storage disabled).
\<close>

datatype item = JSON_tasks "Task list" | Decimal int

record LocalStorage =
  items :: "string \<rightharpoonup> item"
  throwing :: bool
  setItem_calls :: "(string \<times> item) list"

definition getItem :: "string \<Rightarrow> LocalStorage \<Rightarrow> item option" where
  "getItem key ls = items ls key"

text \<open>The result is paired with \<open>False\<close> when the call throws.\<close>

definition setItem :: "string \<Rightarrow> item \<Rightarrow> LocalStorage \<Rightarrow> bool \<times> LocalStorage" where
  "setItem key v ls =
     (let ls' = ls\<lparr>setItem_calls := setItem_calls ls @ [(key, v)]\<rparr>
      in if throwing ls then (False, ls')
         else (True, ls'\<lparr>items := (items ls)(key \<mapsto> v)\<rparr>))"

definition removeItem :: "string \<Rightarrow> LocalStorage \<Rightarrow> LocalStorage" where
  "removeItem key ls = ls\<lparr>items := (items ls)(key := None)\<rparr>"

text \<open>The program's world: the slice state held by the Redux store, and localStorage.\<close>

record world =
  state :: TasksState
  localStorage :: LocalStorage

definition sampleTasks :: "Task list" where
  "sampleTasks =
    [\<lparr>title = ''Fix login bug'', status = Pending, deadline = ''2025-05-10'',
       category = Work, priority = High, task_id = 1\<rparr>,
     \<lparr>title = ''Write unit tests'', status = Completed, deadline = ''2025-06-01'',
       category = Work, priority = Medium, task_id = 2\<rparr>,
     \<lparr>title = ''Update README documentation'', status = Pending, deadline = ''2025-04-15'',
       category = Work, priority = Low, task_id = 3\<rparr>,
     \<lparr>title = ''Design new user profile page'', status = Pending, deadline = ''2025-04-01'',
       category = Personal, priority = Medium, task_id = 4\<rparr>,
     \<lparr>title = ''Buy groceries'', status = Pending, deadline = ''2025-04-05'',
       category = Shopping, priority = High, task_id = 5\<rparr>,
     \<lparr>title = ''Schedule doctor appointment'', status = Completed, deadline = ''2025-04-10'',
       category = Health, priority = High, task_id = 6\<rparr>,
     \<lparr>title = ''Pay utility bills'', status = Pending, deadline = ''2025-04-20'',
       category = Finance, priority = Medium, task_id = 7\<rparr>]"

text \<open>
  \<^verbatim>\<open>loadTasksFromStorage\<close>: both items present gives the stored tasks and counter; anything
  else (an item missing, or an item that does not parse to a task array and a number) gives
  the sample data.
\<close>

definition loadTasksFromStorage :: "LocalStorage \<Rightarrow> Task list \<times> int" where
  "loadTasksFromStorage ls =
     (case (getItem ''tasks'' ls, getItem ''nextId'' ls) of
        (Some (JSON_tasks storedTasks), Some (Decimal storedNextId)) \<Rightarrow>
          (storedTasks, storedNextId)
      | _ \<Rightarrow> (sampleTasks, 8))"

definition initialState :: "LocalStorage \<Rightarrow> TasksState" where
  "initialState ls =
     (let (ts, n) = loadTasksFromStorage ls
      in \<lparr>tasks = ts, nextId = n, deletedIds = []\<rparr>)"

text \<open>
  \<^verbatim>\<open>saveToLocalStorage\<close>: the two writes are inside one \<^verbatim>\<open>try\<close>; a write that throws is
  logged and the rest is skipped. \<open>deletedIds\<close> is not persisted.
\<close>

definition saveToLocalStorage :: "TasksState \<Rightarrow> LocalStorage \<Rightarrow> LocalStorage" where
  "saveToLocalStorage st ls =
     (case setItem ''tasks'' (JSON_tasks (tasks st)) ls of
        (False, ls1) \<Rightarrow> ls1
      | (True, ls1) \<Rightarrow> snd (setItem ''nextId'' (Decimal (nextId st)) ls1))"

definition persist :: "TasksState \<Rightarrow> world \<Rightarrow> world" where
  "persist st w = \<lparr>state = st, localStorage = saveToLocalStorage st (localStorage w)\<rparr>"

section \<open>Array operations\<close>

text \<open>
  \<^verbatim>\<open>Array.prototype.sort\<close> with a comparator. The sort is stable (ECMAScript 2019), so
  for a consistent comparator its result is the one stable sorted arrangement of the array;
  it is computed here by insertion. A comparator result \<open>\<le> 0\<close> keeps the earlier element
  first.
\<close>

fun js_insert :: "('a \<Rightarrow> 'a \<Rightarrow> int) \<Rightarrow> 'a \<Rightarrow> 'a list \<Rightarrow> 'a list" where
  "js_insert cmp x [] = [x]"
| "js_insert cmp x (y # ys) =
     (if cmp x y \<le> 0 then x # y # ys else y # js_insert cmp x ys)"

definition js_sort :: "('a \<Rightarrow> 'a \<Rightarrow> int) \<Rightarrow> 'a list \<Rightarrow> 'a list" where
  "js_sort cmp xs = foldr (js_insert cmp) xs []"

text \<open>\<^verbatim>\<open>Array.prototype.findIndex\<close>; \<open>None\<close> stands for the result \<open>-1\<close>.\<close>

fun findIndex :: "('a \<Rightarrow> bool) \<Rightarrow> 'a list \<Rightarrow> nat option" where
  "findIndex P [] = None"
| "findIndex P (x # xs) = (if P x then Some 0 else map_option Suc (findIndex P xs))"

section \<open>Reducers\<close>

text \<open>
  \<^verbatim>\<open>addTask\<close>: a deleted id is reused, smallest first (\<open>deletedIds\<close> is sorted in place
  and its head is shifted off; the array is not empty there, so \<^verbatim>\<open>shift\<close> returns an
  element); otherwise \<open>nextId\<close> is used and advanced. \<open>newTask\<close> is the object
  literal \<^verbatim>\<open>{ id: newId, ...action.payload }\<close>.
\<close>

definition newTask :: "int \<Rightarrow> TaskFields \<Rightarrow> Task" where
  "newTask newId payload =
     \<lparr>title = title payload, status = status payload, deadline = deadline payload,
      category = category payload, priority = priority payload, task_id = newId\<rparr>"

definition addTask :: "TaskFields \<Rightarrow> world \<Rightarrow> world" where
  "addTask payload w =
     (let st = state w;
          (newId, st1) =
            (if length (deletedIds st) > 0
             then (case js_sort (\<lambda>a b. a - b) (deletedIds st) of
                     d # ds \<Rightarrow> (d, st\<lparr>deletedIds := ds\<rparr>))
             else (nextId st, st\<lparr>nextId := nextId st + 1\<rparr>))
      in persist (st1\<lparr>tasks := tasks st1 @ [newTask newId payload]\<rparr>) w)"

text \<open>The object spread \<^verbatim>\<open>{ ...task, ...action.payload }\<close>.\<close>

definition spread :: "Task \<Rightarrow> TaskPatch \<Rightarrow> Task" where
  "spread task payload =
     \<lparr>title = (case patch_title payload of None \<Rightarrow> title task | Some v \<Rightarrow> v),
      status = (case patch_status payload of None \<Rightarrow> status task | Some v \<Rightarrow> v),
      deadline = (case patch_deadline payload of None \<Rightarrow> deadline task | Some v \<Rightarrow> v),
      category = (case patch_category payload of None \<Rightarrow> category task | Some v \<Rightarrow> v),
      priority = (case patch_priority payload of None \<Rightarrow> priority task | Some v \<Rightarrow> v),
      task_id = patch_id payload\<rparr>"

definition updateTask :: "TaskPatch \<Rightarrow> world \<Rightarrow> world" where
  "updateTask payload w =
     (let st = state w
      in case findIndex (\<lambda>task. task_id task = patch_id payload) (tasks st) of
           None \<Rightarrow> w
         | Some index \<Rightarrow>
             persist (st\<lparr>tasks := (tasks st)[index := spread (tasks st ! index) payload]\<rparr>) w)"

definition toggleTaskStatus :: "int \<Rightarrow> world \<Rightarrow> world" where
  "toggleTaskStatus payload w =
     (let st = state w
      in case findIndex (\<lambda>task. task_id task = payload) (tasks st) of
           None \<Rightarrow> w
         | Some index \<Rightarrow>
             persist (st\<lparr>tasks := (tasks st)[index := (tasks st ! index)
               \<lparr>status := (if status (tasks st ! index) = Pending then Completed else Pending)\<rparr>]\<rparr>) w)"

definition deleteTask :: "int \<Rightarrow> world \<Rightarrow> world" where
  "deleteTask payload w =
     (let st = state w
      in persist (st\<lparr>tasks := filter (\<lambda>task. task_id task \<noteq> payload) (tasks st),
                      deletedIds := deletedIds st @ [payload]\<rparr>) w)"

text \<open>
  \<^verbatim>\<open>new Map(taskIds.map((id, index) => [id, index]))\<close>: the entries are set in order, so
  an id that occurs twice keeps its later index.
\<close>

definition orderMap :: "int list \<Rightarrow> (int \<rightharpoonup> nat)" where
  "orderMap taskIds =
     fold (\<lambda>(i, index) m. m(i \<mapsto> index)) (zip taskIds [0 ..< length taskIds]) Map.empty"

definition MAX_SAFE_INTEGER :: int where
  "MAX_SAFE_INTEGER = 9007199254740991"

definition orderOf :: "int list \<Rightarrow> Task \<Rightarrow> int" where
  "orderOf taskIds a =
     (case orderMap taskIds (task_id a) of Some index \<Rightarrow> int index | None \<Rightarrow> MAX_SAFE_INTEGER)"

definition updateTaskOrder :: "int list \<Rightarrow> world \<Rightarrow> world" where
  "updateTaskOrder taskIds w =
     (let st = state w
      in persist (st\<lparr>tasks := js_sort (\<lambda>a b. orderOf taskIds a - orderOf taskIds b) (tasks st)\<rparr>) w)"

definition resetToSampleData :: "world \<Rightarrow> world" where
  "resetToSampleData w =
     (let ls = removeItem ''nextId'' (removeItem ''tasks'' (localStorage w));
          (ts, n) = loadTasksFromStorage ls
      in \<lparr>state = \<lparr>tasks = ts, nextId = n, deletedIds = []\<rparr>, localStorage = ls\<rparr>)"

text \<open>The actions of the slice and the reducer that dispatches on them.\<close>

datatype action =
    AddTask TaskFields
  | UpdateTask TaskPatch
  | ToggleTaskStatus int
  | DeleteTask int
  | UpdateTaskOrder "int list"
  | ResetToSampleData

fun reducer :: "world \<Rightarrow> action \<Rightarrow> world" where
  "reducer w (AddTask payload) = addTask payload w"
| "reducer w (UpdateTask payload) = updateTask payload w"
| "reducer w (ToggleTaskStatus payload) = toggleTaskStatus payload w"
| "reducer w (DeleteTask payload) = deleteTask payload w"
| "reducer w (UpdateTaskOrder taskIds) = updateTaskOrder taskIds w"
| "reducer w ResetToSampleData = resetToSampleData w"

definition dispatchAll :: "action list \<Rightarrow> world \<Rightarrow> world" where
  "dispatchAll acts w = foldl reducer w acts"

text \<open>The world at start-up with nothing stored: the sample data.\<close>

definition emptyStorage :: LocalStorage where
  "emptyStorage = \<lparr>items = Map.empty, throwing = False, setItem_calls = []\<rparr>"

definition seededWorld :: world where
  "seededWorld = \<lparr>state = initialState emptyStorage, localStorage = emptyStorage\<rparr>"

section \<open>Strings\<close>

text \<open>
  \<^verbatim>\<open>String.prototype.toLowerCase\<close> on code units up to U+00FF: the letters A to Z and
  the Latin-1 capitals U+00C0 to U+00DE (without the multiplication sign U+00D7) move up
  by 32; every other code unit stays.
\<close>

definition toLowerCaseUnit :: "char \<Rightarrow> char" where
  "toLowerCaseUnit c =
     (let n = (of_char c :: nat)
      in if (65 \<le> n \<and> n \<le> 90) \<or> (192 \<le> n \<and> n \<le> 222 \<and> n \<noteq> 215)
         then char_of (n + 32) else c)"

definition toLowerCase :: "string \<Rightarrow> string" where
  "toLowerCase s = map toLowerCaseUnit s"

text \<open>
  The white space and line terminators that \<^verbatim>\<open>String.prototype.trim\<close> strips, up to
  U+00FF: tab, line feed, vertical tab, form feed, carriage return, space, no-break space.
\<close>

definition isWhiteSpace :: "char \<Rightarrow> bool" where
  "isWhiteSpace c = ((of_char c :: nat) \<in> {9, 10, 11, 12, 13, 32, 160})"

definition trim :: "string \<Rightarrow> string" where
  "trim s = rev (dropWhile isWhiteSpace (rev (dropWhile isWhiteSpace s)))"

text \<open>\<^verbatim>\<open>s.includes(t)\<close>: \<open>t\<close> occurs in \<open>s\<close> at some position.\<close>

fun js_includes :: "string \<Rightarrow> string \<Rightarrow> bool" where
  "js_includes [] t = (t = [])"
| "js_includes (c # s) t = (prefix t (c # s) \<or> js_includes s t)"

text \<open>\<^verbatim>\<open>String(n)\<close> for an integer \<open>n\<close> (below \<open>10^21\<close> in size): its decimal digits.\<close>

definition digitChar :: "nat \<Rightarrow> char" where
  "digitChar d = char_of (48 + d)"

function digits :: "nat \<Rightarrow> string" where
  "digits n = (if n < 10 then [digitChar n] else digits (n div 10) @ [digitChar (n mod 10)])"
  by pat_completeness auto
termination
  by (relation "measure (\<lambda>n. n)") auto

declare digits.simps [simp del]

definition String_number :: "int \<Rightarrow> string" where
  "String_number n = (if n < 0 then CHR ''-'' # digits (nat (- n)) else digits (nat n))"

section \<open>Selectors\<close>

text \<open>
  \<^verbatim>\<open>RootState\<close> has the one slice \<^verbatim>\<open>tasks\<close>; the selectors are given that slice's state.
\<close>

definition selectAllTasks :: "TasksState \<Rightarrow> Task list" where
  "selectAllTasks st = tasks st"

definition selectTaskById :: "int \<Rightarrow> TasksState \<Rightarrow> Task option" where
  "selectTaskById i st = find (\<lambda>task. task_id task = i) (tasks st)"

definition selectTasksByStatus :: "TaskStatus \<Rightarrow> TasksState \<Rightarrow> Task list" where
  "selectTasksByStatus s st = filter (\<lambda>task. status task = s) (tasks st)"

definition selectTasksByCategory :: "TaskCategory \<Rightarrow> TasksState \<Rightarrow> Task list" where
  "selectTasksByCategory c st = filter (\<lambda>task. category task = c) (tasks st)"

definition selectTasksByPriority :: "TaskPriority \<Rightarrow> TasksState \<Rightarrow> Task list" where
  "selectTasksByPriority p st = filter (\<lambda>task. priority task = p) (tasks st)"

definition selectTasksBySearchTerm :: "string \<Rightarrow> TasksState \<Rightarrow> Task list" where
  "selectTasksBySearchTerm searchTerm st =
     (if trim searchTerm = [] then tasks st
      else let term = toLowerCase searchTerm
           in filter (\<lambda>task. js_includes (toLowerCase (title task)) term) (tasks st))"

subsection \<open>Sorting by a field\<close>

text \<open>\<^verbatim>\<open>keyof Task\<close> and the sort direction.\<close>

datatype field = F_id | F_title | F_status | F_deadline | F_category | F_priority

datatype direction = Asc | Desc

definition priorityValue :: "TaskPriority \<Rightarrow> int" where
  "priorityValue p = (case p of High \<Rightarrow> 0 | Medium \<Rightarrow> 1 | Low \<Rightarrow> 2)"

text \<open>\<^verbatim>\<open>String(a[field])\<close>.\<close>

fun String_field :: "field \<Rightarrow> Task \<Rightarrow> string" where
  "String_field F_id a = String_number (task_id a)"
| "String_field F_title a = title a"
| "String_field F_status a = (case status a of Pending \<Rightarrow> ''pending'' | Completed \<Rightarrow> ''completed'')"
| "String_field F_deadline a = deadline a"
| "String_field F_category a =
     (case category a of Work \<Rightarrow> ''work'' | Personal \<Rightarrow> ''personal'' | Shopping \<Rightarrow> ''shopping''
      | Health \<Rightarrow> ''health'' | Finance \<Rightarrow> ''finance'' | Other \<Rightarrow> ''other'')"
| "String_field F_priority a =
     (case priority a of High \<Rightarrow> ''high'' | Medium \<Rightarrow> ''medium'' | Low \<Rightarrow> ''low'')"

text \<open>
  The comparator of \<^verbatim>\<open>selectTasksSortedByField\<close>. \<open>getTime\<close> stands for
  \<^verbatim>\<open>new Date(s).getTime()\<close>, a built-in of the platform, with \<open>None\<close> for the \<open>NaN\<close> of
  an invalid date; a \<open>NaN\<close> comparator result counts as \<open>0\<close> in \<^verbatim>\<open>sort\<close>.
\<close>

definition compareByField ::
  "(string \<Rightarrow> int option) \<Rightarrow> field \<Rightarrow> direction \<Rightarrow> Task \<Rightarrow> Task \<Rightarrow> int" where
  "compareByField getTime fld dir a b =
     (if fld = F_deadline then
        (case (getTime (deadline a), getTime (deadline b)) of
           (Some dateA, Some dateB) \<Rightarrow> (if dir = Asc then dateA - dateB else dateB - dateA)
         | _ \<Rightarrow> 0)
      else if fld = F_priority then
        (let valueA = priorityValue (priority a); valueB = priorityValue (priority b)
         in if dir = Asc then valueA - valueB else valueB - valueA)
      else
        (let valueA = toLowerCase (String_field fld a);
             valueB = toLowerCase (String_field fld b)
         in if valueA < valueB then (if dir = Asc then - 1 else 1)
            else if valueA > valueB then (if dir = Asc then 1 else - 1)
            else 0))"

definition selectTasksSortedByField ::
  "(string \<Rightarrow> int option) \<Rightarrow> field \<Rightarrow> direction \<Rightarrow> TasksState \<Rightarrow> Task list" where
  "selectTasksSortedByField getTime fld dir st =
     js_sort (compareByField getTime fld dir) (selectAllTasks st)"

subsection \<open>Statistics\<close>

text \<open>
  \<^verbatim>\<open>acc[key] = (acc[key] || 0) + 1\<close> on an object used as a dictionary: an association
  list in insertion order, as the object keeps its keys.
\<close>

definition countUp :: "'k \<Rightarrow> ('k \<times> int) list \<Rightarrow> ('k \<times> int) list" where
  "countUp key acc =
     AList.update key
       ((case map_of acc key of None \<Rightarrow> 0 | Some v \<Rightarrow> if v = 0 then 0 else v) + 1) acc"

text \<open>
  \<^verbatim>\<open>interface TaskStatistics\<close>, without \<^verbatim>\<open>completionRate\<close> (a floating-point
  quotient) and \<^verbatim>\<open>overdueCount\<close>, \<^verbatim>\<open>upcomingCount\<close> (which read the clock).
\<close>

record TaskStatistics =
  totalTasks :: int
  completedTasks :: int
  pendingTasks :: int
  categoryCounts :: "(TaskCategory \<times> int) list"
  priorityCounts :: "(TaskPriority \<times> int) list"

definition selectTaskStatistics :: "TasksState \<Rightarrow> TaskStatistics" where
  "selectTaskStatistics st =
     (let ts = selectAllTasks st;
          total = int (length ts);
          done = int (length (filter (\<lambda>task. status task = Completed) ts))
      in \<lparr>totalTasks = total,
          completedTasks = done,
          pendingTasks = total - done,
          categoryCounts = fold (\<lambda>task acc. countUp (category task) acc) ts [],
          priorityCounts = fold (\<lambda>task acc. countUp (priority task) acc) ts []\<rparr>)"

section \<open>Concrete states and payloads\<close>

text \<open>Inputs at which the theorems below are evaluated.\<close>

definition shoppingList :: TaskFields where
  "shoppingList = \<lparr>title = ''Buy milk'', status = Pending, deadline = ''2025-07-01'',
     category = Shopping, priority = Low\<rparr>"

definition retitle :: TaskPatch where
  "retitle = \<lparr>patch_id = 42, patch_title = Some ''Renamed'', patch_status = None,
     patch_deadline = None, patch_category = None, patch_priority = Some High\<rparr>"

text \<open>A state in which two tasks carry the id 4.\<close>

definition twins :: world where
  "twins = \<lparr>state = \<lparr>tasks = [newTask 4 shoppingList, newTask 9 shoppingList,
       newTask 4 (shoppingList\<lparr>title := ''Buy bread''\<rparr>)], nextId = 10, deletedIds = [2]\<rparr>,
     localStorage = emptyStorage\<rparr>"

definition busy :: TasksState where
  "busy = \<lparr>tasks = [newTask 1 (shoppingList\<lparr>title := ''Fix LOGIN bug''\<rparr>),
      newTask 2 (shoppingList\<lparr>title := ''Plug in the router''\<rparr>),
      newTask 3 (shoppingList\<lparr>title := ''Debug''\<rparr>)], nextId = 4, deletedIds = []\<rparr>"

text \<open>The status flip of \<^verbatim>\<open>toggleTaskStatus\<close>, named for the proofs.\<close>

definition toggled :: "Task \<Rightarrow> Task" where
  "toggled t = t\<lparr>status := (if status t = Pending then Completed else Pending)\<rparr>"

text \<open>The lower-cased text of a field: the key of the text comparison.\<close>

definition textKey :: "field \<Rightarrow> Task \<Rightarrow> string" where
  "textKey fld a = toLowerCase (String_field fld a)"

definition mixed :: TasksState where
  "mixed = \<lparr>tasks = [newTask 2 (shoppingList\<lparr>title := ''pear''\<rparr>),
      newTask 10 (shoppingList\<lparr>title := ''Apple''\<rparr>),
      newTask 1 (shoppingList\<lparr>title := ''PEAR''\<rparr>)], nextId = 11, deletedIds = []\<rparr>"

definition noDates :: "string \<Rightarrow> int option" where
  "noDates s = None"

text \<open>
  The invariant of identifier allocation, and the runs in which every \<^verbatim>\<open>deleteTask\<close>
  names a task that is present.
\<close>

definition wellFormed :: "TasksState \<Rightarrow> bool" where
  "wellFormed st \<longleftrightarrow>
     distinct (map task_id (tasks st)) \<and> distinct (deletedIds st)
     \<and> set (deletedIds st) \<inter> set (map task_id (tasks st)) = {}
     \<and> (\<forall>i\<in>set (map task_id (tasks st)) \<union> set (deletedIds st). i < nextId st)"

fun hits :: "TasksState \<Rightarrow> action \<Rightarrow> bool" where
  "hits st (DeleteTask i) = (i \<in> set (map task_id (tasks st)))"
| "hits st _ = True"

fun allHit :: "world \<Rightarrow> action list \<Rightarrow> bool" where
  "allHit w [] = True"
| "allHit w (a # as) = (hits (state w) a \<and> allHit (reducer w a) as)"

section \<open>Sorting and searching arrays\<close>

text \<open>
  When the comparator compares a key, \<open>js_sort\<close> is the library's stable insertion sort
  by that key.
\<close>

lemma js_insert_insort_key:
  assumes "\<And>x y. cmp x y \<le> 0 \<longleftrightarrow> f x \<le> f y"
  shows "js_insert cmp x ys = insort_key f x ys"
  by (induction ys) (simp_all add: assms)

lemma js_sort_sort_key:
  assumes "\<And>x y. cmp x y \<le> 0 \<longleftrightarrow> f x \<le> f y"
  shows "js_sort cmp xs = sort_key f xs"
  unfolding js_sort_def
  by (induction xs) (simp_all add: js_insert_insort_key [OF assms])

lemma js_sort_numeric: "js_sort (\<lambda>a b. a - b) (ds :: int list) = sort ds"
  by (rule js_sort_sort_key) simp

lemma sort_key_eq_Nil: "sort_key f xs = [] \<longleftrightarrow> xs = []"
  by (metis length_0_conv length_sort)

lemma hd_sort_Min:
  assumes "xs \<noteq> []"
  shows "hd (sort xs) = Min (set xs)"
proof -
  from assms obtain y ys where s: "sort xs = y # ys"
    by (cases "sort xs") (auto simp: sort_key_eq_Nil)
  have "sorted (y # ys)"
    using sorted_sort [of xs] s by simp
  hence "\<forall>z\<in>set ys. y \<le> z"
    by simp
  moreover have "set xs = set (y # ys)"
    using s set_sort [of "\<lambda>x. x" xs] by simp
  ultimately have "Min (set xs) = y"
    by (intro Min_eqI) auto
  thus ?thesis
    using s by simp
qed

lemma findIndex_None: "findIndex P xs = None \<longleftrightarrow> (\<forall>x\<in>set xs. \<not> P x)"
  by (induction xs) auto

lemma findIndex_Some:
  "findIndex P xs = Some n \<longleftrightarrow> n < length xs \<and> P (xs ! n) \<and> (\<forall>m<n. \<not> P (xs ! m))"
proof (induction xs arbitrary: n)
  case Nil
  show ?case by simp
next
  case (Cons x xs)
  show ?case
  proof (cases "P x")
    case True
    then show ?thesis
      by (cases n) auto
  next
    case False
    show ?thesis
    proof (cases n)
      case 0
      with False show ?thesis by auto
    next
      case (Suc k)
      have "(\<forall>m<Suc k. \<not> P ((x # xs) ! m)) \<longleftrightarrow> (\<forall>m<k. \<not> P (xs ! m))"
        using False by (auto simp: less_Suc_eq_0_disj)
      with False Suc Cons.IH [of k] show ?thesis
        by auto
    qed
  qed
qed

lemma findIndex_update:
  assumes "findIndex P xs = Some n" and "P y"
  shows "findIndex P (xs[n := y]) = Some n"
  using assms by (simp add: findIndex_Some nth_list_update)

lemma find_findIndex:
  "find P xs = (case findIndex P xs of None \<Rightarrow> None | Some n \<Rightarrow> Some (xs ! n))"
  by (induction xs) (auto split: option.splits)

lemma length_filter_update:
  assumes "n < length xs"
  shows "int (length (filter P (xs[n := y]))) =
     int (length (filter P xs)) - (if P (xs ! n) then 1 else 0) + (if P y then 1 else 0)"
  using assms
proof (induction xs arbitrary: n)
  case Nil
  then show ?case by simp
next
  case (Cons x xs)
  show ?case
  proof (cases n)
    case 0
    then show ?thesis by simp
  next
    case (Suc k)
    then have "k < length xs"
      using Cons.prems by simp
    from Cons.IH [OF this] Suc show ?thesis
      by (simp split: if_splits)
  qed
qed

lemma set_js_insert: "set (js_insert cmp x ys) = insert x (set ys)"
  by (induction ys) auto

lemma length_js_sort: "length (js_sort cmp xs) = length xs"
proof -
  have "length (js_insert cmp x ys) = Suc (length ys)" for x ys
    by (induction ys) simp_all
  then show ?thesis
    unfolding js_sort_def by (induction xs) simp_all
qed

lemma set_js_sort: "set (js_sort cmp xs) = set xs"
  unfolding js_sort_def by (induction xs) (simp_all add: set_js_insert)

lemma sorted_wrt_js_insert:
  assumes cmp: "\<And>x y. cmp x y \<le> 0 \<longleftrightarrow> R x y"
    and total: "\<And>x y. R x y \<or> R y x"
    and trans: "\<And>x y z. R x y \<Longrightarrow> R y z \<Longrightarrow> R x z"
    and "sorted_wrt R ys"
  shows "sorted_wrt R (js_insert cmp x ys)"
  using assms(4)
proof (induction ys)
  case Nil
  show ?case by simp
next
  case (Cons y ys)
  show ?case
  proof (cases "R x y")
    case True
    then have "\<forall>z\<in>set ys. R x z"
      using Cons.prems trans by auto
    with True Cons.prems show ?thesis
      by (simp add: cmp)
  next
    case False
    then have "R y x"
      using total by blast
    with False Cons show ?thesis
      by (simp add: cmp set_js_insert)
  qed
qed

lemma sorted_wrt_js_sort:
  assumes "\<And>x y. cmp x y \<le> 0 \<longleftrightarrow> R x y"
    and "\<And>x y. R x y \<or> R y x"
    and "\<And>x y z. R x y \<Longrightarrow> R y z \<Longrightarrow> R x z"
  shows "sorted_wrt R (js_sort cmp xs)"
  unfolding js_sort_def
  by (induction xs) (simp_all add: sorted_wrt_js_insert [OF assms])

lemma insort_key_before:
  assumes "\<forall>b\<in>set bs. f x \<le> f b"
  shows "insort_key f x (as @ bs) = insort_key f x as @ bs"
proof (induction as)
  case Nil
  from assms show ?case by (cases bs) simp_all
next
  case (Cons a as)
  then show ?case by simp
qed

lemma insort_key_between:
  assumes "\<forall>a\<in>set as. f a < f x" and "\<forall>b\<in>set bs. f x \<le> f b"
  shows "insort_key f x (as @ bs) = as @ x # bs"
  using assms(1)
proof (induction as)
  case Nil
  from assms(2) show ?case by (cases bs) simp_all
next
  case (Cons a as)
  then show ?case by auto
qed

text \<open>
  A stable sort by a key that is largest, and the same, on the elements outside \<open>P\<close>
  sorts the elements in \<open>P\<close> and leaves the others behind them as they were.
\<close>

lemma sort_key_top:
  assumes "\<And>x. P x \<Longrightarrow> f x < m" and "\<And>x. \<not> P x \<Longrightarrow> f x = m"
  shows "sort_key f xs = sort_key f (filter P xs) @ filter (\<lambda>x. \<not> P x) xs"
proof (induction xs)
  case Nil
  show ?case by simp
next
  case (Cons x xs)
  show ?case
  proof (cases "P x")
    case True
    then have "\<forall>b\<in>set (filter (\<lambda>x. \<not> P x) xs). f x \<le> f b"
      using assms [of x] assms(2) by auto
    with True Cons show ?thesis
      by (simp add: insort_key_before)
  next
    case False
    have "\<forall>a\<in>set (sort_key f (filter P xs)). f a < f x"
      using assms False by auto
    moreover have "\<forall>b\<in>set (filter (\<lambda>x. \<not> P x) xs). f x \<le> f b"
      using assms False by auto
    ultimately show ?thesis
      using False Cons by (simp add: insort_key_between)
  qed
qed

section \<open>What each reducer does to the state\<close>

lemma state_persist [simp]: "state (persist st w) = st"
  by (simp add: persist_def)

lemma seeded_state:
  "state seededWorld = \<lparr>tasks = sampleTasks, nextId = 8, deletedIds = []\<rparr>"
  by (simp add: seededWorld_def initialState_def loadTasksFromStorage_def getItem_def
      emptyStorage_def)

lemma sample_ids: "map task_id sampleTasks = [1, 2, 3, 4, 5, 6, 7]"
  by (simp add: sampleTasks_def)

lemma addTask_reuse:
  assumes "deletedIds (state w) \<noteq> []"
  shows "state (addTask payload w) =
     (state w)\<lparr>tasks := tasks (state w) @ [newTask (Min (set (deletedIds (state w)))) payload],
               deletedIds := tl (sort (deletedIds (state w)))\<rparr>"
proof -
  from assms obtain d ds where s: "sort (deletedIds (state w)) = d # ds"
    by (cases "sort (deletedIds (state w))") (auto simp: sort_key_eq_Nil)
  have d: "d = Min (set (deletedIds (state w)))"
    using hd_sort_Min [OF assms] s by simp
  show ?thesis
    using assms s d
    by (simp add: addTask_def js_sort_numeric Let_def)
qed

lemma addTask_fresh:
  assumes "deletedIds (state w) = []"
  shows "state (addTask payload w) =
     (state w)\<lparr>tasks := tasks (state w) @ [newTask (nextId (state w)) payload],
               nextId := nextId (state w) + 1\<rparr>"
  using assms by (simp add: addTask_def Let_def)

lemma state_deleteTask:
  "state (deleteTask i w) =
     (state w)\<lparr>tasks := filter (\<lambda>task. task_id task \<noteq> i) (tasks (state w)),
               deletedIds := deletedIds (state w) @ [i]\<rparr>"
  by (simp add: deleteTask_def Let_def)

lemma state_updateTask_Some:
  assumes "findIndex (\<lambda>task. task_id task = patch_id payload) (tasks (state w)) = Some n"
  shows "state (updateTask payload w) =
    (state w)\<lparr>tasks := (tasks (state w))[n := spread (tasks (state w) ! n) payload]\<rparr>"
  using assms by (simp add: updateTask_def Let_def)

lemma toggled_toggled: "toggled (toggled t) = t"
  by (cases t, cases "status t") (simp_all add: toggled_def)

lemma state_toggle_Some:
  assumes "findIndex (\<lambda>task. task_id task = i) (tasks (state w)) = Some n"
  shows "state (toggleTaskStatus i w) =
    (state w)\<lparr>tasks := (tasks (state w))[n := toggled (tasks (state w) ! n)]\<rparr>"
  using assms by (simp add: toggleTaskStatus_def Let_def toggled_def)

lemma state_toggle_twice: "state (toggleTaskStatus i (toggleTaskStatus i w)) = state w"
proof (cases "findIndex (\<lambda>task. task_id task = i) (tasks (state w))")
  case None
  then have "toggleTaskStatus i w = w"
    by (simp add: toggleTaskStatus_def Let_def)
  then show ?thesis by simp
next
  case (Some n)
  let ?ts = "tasks (state w)"
  have n: "n < length ?ts" and idn: "task_id (?ts ! n) = i"
    using Some by (simp_all add: findIndex_Some)
  have "task_id (toggled (?ts ! n)) = i"
    using idn by (simp add: toggled_def)
  then have again: "findIndex (\<lambda>task. task_id task = i) (?ts[n := toggled (?ts ! n)]) = Some n"
    using Some by (intro findIndex_update) simp_all
  have "state (toggleTaskStatus i (toggleTaskStatus i w)) =
      (state (toggleTaskStatus i w))\<lparr>tasks :=
        (tasks (state (toggleTaskStatus i w)))[n := toggled (tasks (state (toggleTaskStatus i w)) ! n)]\<rparr>"
    by (rule state_toggle_Some) (simp add: state_toggle_Some [OF Some] again)
  also have "\<dots> = state w"
    using n by (simp add: state_toggle_Some [OF Some] toggled_toggled)
  finally show ?thesis .
qed

lemma tasks_updateTaskOrder:
  "tasks (state (updateTaskOrder ids w)) = sort_key (orderOf ids) (tasks (state w))"
proof -
  have "js_sort (\<lambda>a b. orderOf ids a - orderOf ids b) xs = sort_key (orderOf ids) xs" for xs
    by (rule js_sort_sort_key) simp
  then show ?thesis
    by (simp add: updateTaskOrder_def Let_def)
qed

section \<open>Identifier allocation\<close>

text \<open>
  Claim C1 says that task ids stay unique under every sequence of actions from the initial
  state. \<^verbatim>\<open>deleteTask\<close> pushes its argument onto \<open>deletedIds\<close> whether or not a task
  was removed, so an id can enter the pool twice, or enter it while \<open>nextId\<close> has not
  reached it yet. From the sample data, deleting id 3 twice and adding two tasks gives two
  tasks with id 3; deleting the unused id 8 and adding two tasks gives two tasks with id 8.
\<close>

theorem duplicate_ids_after_repeated_delete:
  "map task_id (tasks (state (dispatchAll
      [DeleteTask 3, DeleteTask 3, AddTask shoppingList, AddTask shoppingList] seededWorld)))
     = [1, 2, 4, 5, 6, 7, 3, 3]
   \<and> \<not> distinct (map task_id (tasks (state (dispatchAll
      [DeleteTask 3, DeleteTask 3, AddTask shoppingList, AddTask shoppingList] seededWorld))))
   \<and> map task_id (tasks (state (dispatchAll
      [DeleteTask 8, AddTask shoppingList, AddTask shoppingList] seededWorld)))
     = [1, 2, 3, 4, 5, 6, 7, 8, 8]"
  by (simp add: dispatchAll_def state_deleteTask seeded_state sampleTasks_def addTask_def
      js_sort_def newTask_def Let_def)

text \<open>
  The unguarded push is the only way to a repeated id: \<open>wellFormed\<close> (unique ids, a pool
  of distinct ids that no task carries, all ids below \<open>nextId\<close>) is kept by every action
  as long as each \<^verbatim>\<open>deleteTask\<close> names a task that is present.
\<close>

lemma ids_updateTask:
  "map task_id (tasks (state (updateTask payload w))) = map task_id (tasks (state w))"
proof (cases "findIndex (\<lambda>task. task_id task = patch_id payload) (tasks (state w))")
  case None
  then show ?thesis
    by (simp add: updateTask_def Let_def)
next
  case (Some n)
  let ?ts = "tasks (state w)"
  have n: "n < length ?ts" and i: "task_id (?ts ! n) = patch_id payload"
    using Some by (simp_all add: findIndex_Some)
  have "map task_id (?ts[n := spread (?ts ! n) payload]) = (map task_id ?ts)[n := task_id (?ts ! n)]"
    using i by (simp add: map_update spread_def)
  also have "\<dots> = map task_id ?ts"
    using n by (metis length_map list_update_id nth_map)
  finally show ?thesis
    by (simp add: state_updateTask_Some [OF Some])
qed

lemma other_updateTask:
  "nextId (state (updateTask payload w)) = nextId (state w)
   \<and> deletedIds (state (updateTask payload w)) = deletedIds (state w)"
  by (cases "findIndex (\<lambda>task. task_id task = patch_id payload) (tasks (state w))")
    (simp_all add: updateTask_def Let_def)

lemma ids_toggleTaskStatus:
  "map task_id (tasks (state (toggleTaskStatus i w))) = map task_id (tasks (state w))"
proof (cases "findIndex (\<lambda>task. task_id task = i) (tasks (state w))")
  case None
  then show ?thesis
    by (simp add: toggleTaskStatus_def Let_def)
next
  case (Some n)
  let ?ts = "tasks (state w)"
  have n: "n < length ?ts"
    using Some by (simp add: findIndex_Some)
  have "map task_id (?ts[n := toggled (?ts ! n)]) = (map task_id ?ts)[n := task_id (?ts ! n)]"
    by (simp add: map_update toggled_def)
  also have "\<dots> = map task_id ?ts"
    using n by (metis length_map list_update_id nth_map)
  finally show ?thesis
    by (simp add: state_toggle_Some [OF Some])
qed

lemma other_toggleTaskStatus:
  "nextId (state (toggleTaskStatus i w)) = nextId (state w)
   \<and> deletedIds (state (toggleTaskStatus i w)) = deletedIds (state w)"
  by (cases "findIndex (\<lambda>task. task_id task = i) (tasks (state w))")
    (simp_all add: toggleTaskStatus_def Let_def)

lemma distinct_map_sort_key: "distinct (map g (sort_key f xs)) = distinct (map g xs)"
  by (simp add: distinct_map)

lemma wellFormed_sample: "wellFormed \<lparr>tasks = sampleTasks, nextId = 8, deletedIds = []\<rparr>"
  by (simp add: wellFormed_def sampleTasks_def)

lemma state_resetToSampleData:
  "state (resetToSampleData w) = \<lparr>tasks = sampleTasks, nextId = 8, deletedIds = []\<rparr>"
  by (simp add: resetToSampleData_def loadTasksFromStorage_def getItem_def removeItem_def)

lemma wellFormed_addTask:
  assumes "wellFormed (state w)"
  shows "wellFormed (state (addTask payload w))"
proof (cases "deletedIds (state w) = []")
  case True
  with assms show ?thesis
    by (auto simp: addTask_fresh wellFormed_def newTask_def)
next
  case False
  let ?ds = "deletedIds (state w)"
  let ?m = "Min (set ?ds)"
  from False obtain ds where s: "sort ?ds = ?m # ds"
    using hd_sort_Min [OF False] by (cases "sort ?ds") (auto simp: sort_key_eq_Nil)
  have d: "distinct (?m # ds)"
    using assms s distinct_sort [of "\<lambda>x. x" ?ds] by (simp add: wellFormed_def)
  have e: "set ?ds = insert ?m (set ds)"
    using s set_sort [of "\<lambda>x. x" ?ds] by simp
  show ?thesis
    using assms d e
    by (auto simp: addTask_reuse [OF False] s wellFormed_def newTask_def)
qed

lemma wellFormed_deleteTask:
  assumes "wellFormed (state w)" and "i \<in> set (map task_id (tasks (state w)))"
  shows "wellFormed (state (deleteTask i w))"
  using assms by (auto simp: state_deleteTask wellFormed_def distinct_map_filter)

lemma wellFormed_reducer:
  assumes "wellFormed (state w)" and "hits (state w) a"
  shows "wellFormed (state (reducer w a))"
proof (cases a)
  case (AddTask payload)
  with assms show ?thesis by (simp add: wellFormed_addTask)
next
  case (UpdateTask payload)
  with assms show ?thesis
    by (simp add: wellFormed_def ids_updateTask other_updateTask)
next
  case (ToggleTaskStatus i)
  with assms show ?thesis
    by (simp add: wellFormed_def ids_toggleTaskStatus other_toggleTaskStatus)
next
  case (DeleteTask i)
  with assms show ?thesis by (simp add: wellFormed_deleteTask)
next
  case (UpdateTaskOrder ids)
  have "tasks (state (updateTaskOrder ids w)) = sort_key (orderOf ids) (tasks (state w))"
    by (rule tasks_updateTaskOrder)
  moreover have "nextId (state (updateTaskOrder ids w)) = nextId (state w)"
    "deletedIds (state (updateTaskOrder ids w)) = deletedIds (state w)"
    by (simp_all add: updateTaskOrder_def Let_def)
  ultimately show ?thesis
    using assms UpdateTaskOrder by (simp add: wellFormed_def distinct_map_sort_key)
next
  case ResetToSampleData
  then show ?thesis
    by (simp add: state_resetToSampleData wellFormed_sample)
qed

lemma wellFormed_dispatchAll:
  assumes "wellFormed (state w)" and "allHit w acts"
  shows "wellFormed (state (dispatchAll acts w))"
  using assms unfolding dispatchAll_def
  by (induction acts arbitrary: w) (simp_all add: wellFormed_reducer)

lemma allHit_take: "allHit w acts \<Longrightarrow> allHit w (take n acts)"
proof (induction acts arbitrary: w n)
  case Nil
  then show ?case by simp
next
  case (Cons a acts)
  then show ?case by (cases n) simp_all
qed

text \<open>
  When every \<^verbatim>\<open>deleteTask\<close> of a run names a task that is present, the ids are unique after
  every step of the run.
\<close>

lemma ids_unique_when_deletes_hit:
  assumes "allHit seededWorld acts"
  shows "distinct (map task_id (tasks (state (dispatchAll (take n acts) seededWorld))))"
proof -
  have "wellFormed (state seededWorld)"
    by (simp add: seeded_state wellFormed_sample)
  then have "wellFormed (state (dispatchAll (take n acts) seededWorld))"
    using allHit_take [OF assms] by (rule wellFormed_dispatchAll)
  then show ?thesis
    by (simp add: wellFormed_def)
qed

text \<open>
  Claim C2: from the sample data (ids 1 to 7, \<open>nextId = 8\<close>, no deleted ids), deleting
  task 3 and adding a task gives the new task the id 3 and leaves \<open>nextId\<close> at 8. In
  general, when \<open>deletedIds\<close> is not empty, \<^verbatim>\<open>addTask\<close> appends a task whose id is the
  smallest deleted id and does not change \<open>nextId\<close>.
\<close>

theorem addTask_reuses_smallest_deleted_id:
  "map task_id (tasks (state seededWorld)) = [1, 2, 3, 4, 5, 6, 7]
   \<and> nextId (state seededWorld) = 8
   \<and> deletedIds (state seededWorld) = []
   \<and> tasks (state (addTask payload (deleteTask 3 seededWorld)))
       = filter (\<lambda>task. task_id task \<noteq> 3) sampleTasks @ [newTask 3 payload]
   \<and> task_id (last (tasks (state (addTask payload (deleteTask 3 seededWorld))))) = 3
   \<and> nextId (state (addTask payload (deleteTask 3 seededWorld))) = 8
   \<and> (deletedIds (state w) \<noteq> [] \<longrightarrow>
        tasks (state (addTask payload w))
          = tasks (state w) @ [newTask (Min (set (deletedIds (state w)))) payload]
        \<and> task_id (last (tasks (state (addTask payload w)))) = Min (set (deletedIds (state w)))
        \<and> nextId (state (addTask payload w)) = nextId (state w))"
proof -
  have a: "deletedIds (state (deleteTask 3 seededWorld)) \<noteq> []"
    by (simp add: state_deleteTask)
  have b: "state (addTask payload (deleteTask 3 seededWorld)) =
      \<lparr>tasks = filter (\<lambda>task. task_id task \<noteq> 3) sampleTasks @ [newTask 3 payload],
       nextId = 8, deletedIds = []\<rparr>"
    by (simp add: addTask_reuse [OF a] state_deleteTask seeded_state)
  have c: "task_id (newTask i payload) = i" for i
    by (simp add: newTask_def)
  show ?thesis
    by (simp add: seeded_state sample_ids b c addTask_reuse)
qed

theorem addTask_reuses_smallest_deleted_id_witness:
  "deletedIds (state (deleteTask 2 (deleteTask 5 seededWorld))) = [5, 2]
   \<and> map task_id (tasks (state (addTask shoppingList (deleteTask 2 (deleteTask 5 seededWorld)))))
       = [1, 3, 4, 6, 7, 2]
   \<and> nextId (state (addTask shoppingList (deleteTask 2 (deleteTask 5 seededWorld)))) = 8"
  using addTask_reuses_smallest_deleted_id
    [of shoppingList "deleteTask 2 (deleteTask 5 seededWorld)"]
  by (simp add: state_deleteTask seeded_state sampleTasks_def newTask_def)

section \<open>Updating, toggling and deleting\<close>

text \<open>
  Claim C4: when no task has the id, \<^verbatim>\<open>updateTask\<close> with that id and any fields leaves
  the whole world as it is: the state, the stored items and the record of \<^verbatim>\<open>setItem\<close>
  calls, so nothing is written. The same holds for \<^verbatim>\<open>toggleTaskStatus\<close>.
\<close>

theorem update_of_absent_id_is_noop:
  assumes "\<forall>task\<in>set (tasks (state w)). task_id task \<noteq> i"
    and "patch_id payload = i"
  shows "updateTask payload w = w \<and> toggleTaskStatus i w = w
    \<and> setItem_calls (localStorage (updateTask payload w)) = setItem_calls (localStorage w)
    \<and> setItem_calls (localStorage (toggleTaskStatus i w)) = setItem_calls (localStorage w)"
proof -
  have "findIndex (\<lambda>task. task_id task = i) (tasks (state w)) = None"
    using assms(1) by (simp add: findIndex_None)
  then have "updateTask payload w = w" and "toggleTaskStatus i w = w"
    using assms(2) by (simp_all add: updateTask_def toggleTaskStatus_def Let_def)
  then show ?thesis by simp
qed

theorem update_of_absent_id_is_noop_witness:
  "map task_id (tasks (state seededWorld)) = [1, 2, 3, 4, 5, 6, 7]
   \<and> patch_id retitle = 42
   \<and> updateTask retitle seededWorld = seededWorld
   \<and> toggleTaskStatus 42 seededWorld = seededWorld
   \<and> setItem_calls (localStorage (updateTask retitle seededWorld)) = []
   \<and> setItem_calls (localStorage (toggleTaskStatus 42 seededWorld)) = []"
proof -
  have h: "\<forall>task\<in>set (tasks (state seededWorld)). task_id task \<noteq> 42"
    by (simp add: seeded_state sampleTasks_def)
  have p: "patch_id retitle = 42"
    by (simp add: retitle_def)
  have e: "setItem_calls (localStorage seededWorld) = []"
    by (simp add: seededWorld_def emptyStorage_def)
  show ?thesis
    using update_of_absent_id_is_noop [OF h p] p e by (simp add: seeded_state sample_ids)
qed

text \<open>
  Claim C9: after \<^verbatim>\<open>deleteTask\<close> no task of the collection has the argument as its id:
  every task with that id is removed, also when several tasks had it. The argument is
  appended to \<open>deletedIds\<close> in every case, also when no task had that id.
\<close>

theorem deleteTask_removes_every_occurrence:
  "(\<forall>task\<in>set (tasks (state (deleteTask i w))). task_id task \<noteq> i)
   \<and> tasks (state (deleteTask i w)) = filter (\<lambda>task. task_id task \<noteq> i) (tasks (state w))
   \<and> deletedIds (state (deleteTask i w)) = deletedIds (state w) @ [i]
   \<and> nextId (state (deleteTask i w)) = nextId (state w)"
  by (simp add: state_deleteTask)

theorem deleteTask_removes_every_occurrence_witness:
  "map task_id (tasks (state twins)) = [4, 9, 4]
   \<and> map task_id (tasks (state (deleteTask 4 twins))) = [9]
   \<and> deletedIds (state (deleteTask 4 twins)) = [2, 4]
   \<and> map task_id (tasks (state (deleteTask 5 twins))) = [4, 9, 4]
   \<and> deletedIds (state (deleteTask 5 twins)) = [2, 5]"
  using deleteTask_removes_every_occurrence [of 4 twins]
    deleteTask_removes_every_occurrence [of 5 twins]
  by (simp add: twins_def newTask_def)

text \<open>
  Claim C10: when the id of the payload is the id of a task, \<^verbatim>\<open>updateTask\<close> changes the
  first task with that id and nothing else. With \<open>n\<close> the position of that task: the
  collection keeps its length and its order of ids, every task at another position is
  unchanged, the task at \<open>n\<close> keeps its id, each of its fields that the payload carries
  takes the payload's value and each field that the payload does not carry keeps its value.
\<close>

theorem updateTask_changes_only_given_fields:
  assumes "n < length (tasks (state w))"
    and "task_id (tasks (state w) ! n) = patch_id payload"
    and "\<forall>m<n. task_id (tasks (state w) ! m) \<noteq> patch_id payload"
  shows "length (tasks (state (updateTask payload w))) = length (tasks (state w))
    \<and> map task_id (tasks (state (updateTask payload w))) = map task_id (tasks (state w))
    \<and> (\<forall>j<length (tasks (state w)). j \<noteq> n \<longrightarrow>
          tasks (state (updateTask payload w)) ! j = tasks (state w) ! j)
    \<and> task_id (tasks (state (updateTask payload w)) ! n) = task_id (tasks (state w) ! n)
    \<and> title (tasks (state (updateTask payload w)) ! n)
        = (case patch_title payload of None \<Rightarrow> title (tasks (state w) ! n) | Some v \<Rightarrow> v)
    \<and> status (tasks (state (updateTask payload w)) ! n)
        = (case patch_status payload of None \<Rightarrow> status (tasks (state w) ! n) | Some v \<Rightarrow> v)
    \<and> deadline (tasks (state (updateTask payload w)) ! n)
        = (case patch_deadline payload of None \<Rightarrow> deadline (tasks (state w) ! n) | Some v \<Rightarrow> v)
    \<and> category (tasks (state (updateTask payload w)) ! n)
        = (case patch_category payload of None \<Rightarrow> category (tasks (state w) ! n) | Some v \<Rightarrow> v)
    \<and> priority (tasks (state (updateTask payload w)) ! n)
        = (case patch_priority payload of None \<Rightarrow> priority (tasks (state w) ! n) | Some v \<Rightarrow> v)
    \<and> nextId (state (updateTask payload w)) = nextId (state w)
    \<and> deletedIds (state (updateTask payload w)) = deletedIds (state w)"
proof -
  let ?ts = "tasks (state w)"
  have f: "findIndex (\<lambda>task. task_id task = patch_id payload) ?ts = Some n"
    using assms by (simp add: findIndex_Some)
  have s: "state (updateTask payload w) = (state w)\<lparr>tasks := ?ts[n := spread (?ts ! n) payload]\<rparr>"
    by (rule state_updateTask_Some [OF f])
  have i: "task_id (spread (?ts ! n) payload) = task_id (?ts ! n)"
    using assms(2) by (simp add: spread_def)
  have "map task_id (?ts[n := spread (?ts ! n) payload]) = (map task_id ?ts)[n := task_id (?ts ! n)]"
    by (simp add: map_update i)
  also have "\<dots> = map task_id ?ts"
    using assms(1) by (metis length_map list_update_id nth_map)
  finally have m: "map task_id (?ts[n := spread (?ts ! n) payload]) = map task_id ?ts" .
  show ?thesis
    using assms(1) by (simp add: s m i) (simp add: spread_def)
qed

theorem updateTask_changes_only_given_fields_witness:
  "map task_id (tasks (state twins)) = [4, 9, 4]
   \<and> tasks (state (updateTask (retitle\<lparr>patch_id := 4\<rparr>) twins))
      = [newTask 4 (shoppingList\<lparr>title := ''Renamed'', priority := High\<rparr>),
         newTask 9 shoppingList,
         newTask 4 (shoppingList\<lparr>title := ''Buy bread''\<rparr>)]"
proof -
  have a: "0 < length (tasks (state twins))"
    by (simp add: twins_def)
  have b: "task_id (tasks (state twins) ! 0) = patch_id (retitle\<lparr>patch_id := 4\<rparr>)"
    by (simp add: twins_def newTask_def)
  have c: "\<forall>m<0. task_id (tasks (state twins) ! m) \<noteq> patch_id (retitle\<lparr>patch_id := 4\<rparr>)"
    by simp
  have d: "tasks (state (updateTask (retitle\<lparr>patch_id := 4\<rparr>) twins))
      = [newTask 4 (shoppingList\<lparr>title := ''Renamed'', priority := High\<rparr>),
         newTask 9 shoppingList,
         newTask 4 (shoppingList\<lparr>title := ''Buy bread''\<rparr>)]"
    by (simp add: updateTask_def twins_def newTask_def retitle_def spread_def shoppingList_def)
  show ?thesis
    using updateTask_changes_only_given_fields [OF a b c] d
    by (simp add: twins_def newTask_def)
qed

section \<open>Reordering\<close>

lemma orderMap_snoc: "orderMap (ids @ [i]) = (orderMap ids)(i \<mapsto> length ids)"
proof -
  have "zip (ids @ [i]) [0 ..< length (ids @ [i])] = zip ids [0 ..< length ids] @ [(i, length ids)]"
    by simp
  then show ?thesis
    by (simp add: orderMap_def)
qed

lemma orderMap_Nil: "orderMap [] = Map.empty"
  by (simp add: orderMap_def)

lemma orderMap_None: "orderMap ids i = None \<longleftrightarrow> i \<notin> set ids"
  by (induction ids rule: rev_induct) (simp_all add: orderMap_Nil orderMap_snoc)

text \<open>The index kept for an id is the position of its last occurrence.\<close>

lemma orderMap_Some:
  "orderMap ids i = Some p \<longleftrightarrow>
     p < length ids \<and> ids ! p = i \<and> (\<forall>q<length ids. p < q \<longrightarrow> ids ! q \<noteq> i)"
proof (induction ids rule: rev_induct)
  case Nil
  show ?case by (simp add: orderMap_Nil)
next
  case (snoc x ids)
  show ?case
  proof (cases "x = i")
    case True
    have "(p < Suc (length ids) \<and> (ids @ [x]) ! p = i
        \<and> (\<forall>q<Suc (length ids). p < q \<longrightarrow> (ids @ [x]) ! q \<noteq> i)) \<longleftrightarrow> p = length ids"
      using True by (auto simp: nth_append less_Suc_eq)
    with True show ?thesis
      by (auto simp: orderMap_snoc)
  next
    case False
    have "(p < Suc (length ids) \<and> (ids @ [x]) ! p = i
        \<and> (\<forall>q<Suc (length ids). p < q \<longrightarrow> (ids @ [x]) ! q \<noteq> i))
      \<longleftrightarrow> (p < length ids \<and> ids ! p = i \<and> (\<forall>q<length ids. p < q \<longrightarrow> ids ! q \<noteq> i))"
      using False by (auto simp: nth_append less_Suc_eq)
    with False snoc show ?thesis
      by (simp add: orderMap_snoc)
  qed
qed

lemma orderMap_distinct:
  assumes "distinct ids" and "p < length ids"
  shows "orderMap ids (ids ! p) = Some p"
  using assms by (auto simp: orderMap_Some nth_eq_iff_index_eq)

lemma orderOf_absent: "task_id a \<notin> set ids \<Longrightarrow> orderOf ids a = MAX_SAFE_INTEGER"
  using orderMap_None [of ids "task_id a"] by (simp add: orderOf_def)

lemma orderOf_present:
  assumes "task_id a \<in> set ids" and "int (length ids) \<le> MAX_SAFE_INTEGER"
  shows "orderOf ids a < MAX_SAFE_INTEGER"
proof -
  from assms(1) obtain p where p: "orderMap ids (task_id a) = Some p"
    using orderMap_None [of ids "task_id a"] by auto
  then have "p < length ids"
    by (simp add: orderMap_Some)
  with p assms(2) show ?thesis
    by (simp add: orderOf_def)
qed

text \<open>
  Claim C3: after \<^verbatim>\<open>updateTaskOrder\<close> the collection has the tasks whose id occurs in
  \<open>ids\<close> first, in the order of the positions of their ids in \<open>ids\<close> (tasks at the
  same position keep their order), and behind them the tasks whose id does not occur in
  \<open>ids\<close>, in their former order. The position of an id is the index the order map keeps
  for it: an index at which \<open>ids\<close> holds that id, the last one when the id is repeated
  and the only one when \<open>ids\<close> has no repetition. From the sample data the order
  \<open>[7, 1]\<close> gives the ids 7, 1, 2, 3, 4, 5, 6. The array \<open>ids\<close> is no longer than
  \<^verbatim>\<open>Number.MAX_SAFE_INTEGER\<close>, as every JavaScript array is.
\<close>
theorem updateTaskOrder_puts_listed_ids_first:
  assumes "int (length ids) \<le> MAX_SAFE_INTEGER"
  shows "tasks (state (updateTaskOrder ids w))
      = sort_key (orderOf ids) (filter (\<lambda>a. task_id a \<in> set ids) (tasks (state w)))
        @ filter (\<lambda>a. task_id a \<notin> set ids) (tasks (state w))
    \<and> (\<forall>a p. task_id a \<in> set ids \<longrightarrow>
         (orderOf ids a = int p \<longleftrightarrow>
            p < length ids \<and> ids ! p = task_id a
            \<and> (\<forall>q<length ids. p < q \<longrightarrow> ids ! q \<noteq> task_id a)))
    \<and> (distinct ids \<longrightarrow> (\<forall>a p. p < length ids \<and> ids ! p = task_id a \<longrightarrow> orderOf ids a = int p))
    \<and> map task_id (tasks (state (updateTaskOrder [7, 1] seededWorld))) = [7, 1, 2, 3, 4, 5, 6]"
proof -
  have split: "tasks (state (updateTaskOrder ids w))
      = sort_key (orderOf ids) (filter (\<lambda>a. task_id a \<in> set ids) (tasks (state w)))
        @ filter (\<lambda>a. task_id a \<notin> set ids) (tasks (state w))"
    unfolding tasks_updateTaskOrder
    by (rule sort_key_top [where m = MAX_SAFE_INTEGER])
      (simp_all add: orderOf_present [OF _ assms] orderOf_absent)
  have pos: "orderOf ids a = int p \<longleftrightarrow>
            p < length ids \<and> ids ! p = task_id a
            \<and> (\<forall>q<length ids. p < q \<longrightarrow> ids ! q \<noteq> task_id a)"
    if "task_id a \<in> set ids" for a p
  proof -
    from that obtain r where r: "orderMap ids (task_id a) = Some r"
      using orderMap_None [of ids "task_id a"] by auto
    then have "orderOf ids a = int p \<longleftrightarrow> orderMap ids (task_id a) = Some p"
      by (simp add: orderOf_def)
    then show ?thesis
      by (simp add: orderMap_Some)
  qed
  have dist: "orderOf ids a = int p" if "distinct ids" "p < length ids" "ids ! p = task_id a" for a p
    using that orderMap_distinct [of ids p] by (simp add: orderOf_def)
  have ex: "map task_id (tasks (state (updateTaskOrder [7, 1] seededWorld))) = [7, 1, 2, 3, 4, 5, 6]"
    by (simp add: tasks_updateTaskOrder seeded_state sampleTasks_def orderOf_def orderMap_def
        MAX_SAFE_INTEGER_def)
  show ?thesis
    using split pos dist ex by blast
qed


theorem updateTaskOrder_puts_listed_ids_first_witness:
  "int (length [9, 5, 3 :: int]) \<le> MAX_SAFE_INTEGER
   \<and> map task_id (tasks (state (updateTaskOrder [9, 5, 3] seededWorld))) = [5, 3, 1, 2, 4, 6, 7]
   \<and> map task_id (tasks (state (updateTaskOrder [1, 2, 1] seededWorld))) = [2, 1, 3, 4, 5, 6, 7]"
proof -
  have a: "int (length [9, 5, 3 :: int]) \<le> MAX_SAFE_INTEGER"
    and b: "int (length [1, 2, 1 :: int]) \<le> MAX_SAFE_INTEGER"
    by (simp_all add: MAX_SAFE_INTEGER_def)
  have c: "map task_id (sort_key (orderOf [9, 5, 3])
        (filter (\<lambda>a. task_id a \<in> set [9, 5, 3]) (tasks (state seededWorld)))
        @ filter (\<lambda>a. task_id a \<notin> set [9, 5, 3]) (tasks (state seededWorld))) = [5, 3, 1, 2, 4, 6, 7]"
    by (simp add: seeded_state sampleTasks_def orderOf_def orderMap_def MAX_SAFE_INTEGER_def)
  have d: "map task_id (sort_key (orderOf [1, 2, 1])
        (filter (\<lambda>a. task_id a \<in> set [1, 2, 1]) (tasks (state seededWorld)))
        @ filter (\<lambda>a. task_id a \<notin> set [1, 2, 1]) (tasks (state seededWorld))) = [2, 1, 3, 4, 5, 6, 7]"
    by (simp add: seeded_state sampleTasks_def orderOf_def orderMap_def MAX_SAFE_INTEGER_def)
  show ?thesis
    using updateTaskOrder_puts_listed_ids_first [OF a, of seededWorld]
      updateTaskOrder_puts_listed_ids_first [OF b, of seededWorld] a c d
    by simp
qed

section \<open>Statistics\<close>

lemma sum_list_update:
  "sum_list (map snd (AList.update k v al)) =
     sum_list (map snd al) + v - (case map_of al k of None \<Rightarrow> 0 | Some u \<Rightarrow> (u :: int))"
  by (induction al) auto

lemma sum_list_countUp: "sum_list (map snd (countUp k acc)) = sum_list (map snd acc) + 1"
  by (simp add: countUp_def sum_list_update split: option.splits)

lemma distinct_countUp: "distinct (map fst acc) \<Longrightarrow> distinct (map fst (countUp k acc))"
  by (simp add: countUp_def distinct_update)

lemma sum_list_fold_countUp:
  "sum_list (map snd (fold (\<lambda>task acc. countUp (g task) acc) ts acc))
     = sum_list (map snd acc) + int (length ts)"
  by (induction ts arbitrary: acc) (simp_all add: sum_list_countUp)

lemma distinct_fold_countUp:
  "distinct (map fst acc) \<Longrightarrow> distinct (map fst (fold (\<lambda>task acc. countUp (g task) acc) ts acc))"
  by (induction ts arbitrary: acc) (simp_all add: distinct_countUp)

lemma filter_status_split:
  "length (filter (\<lambda>task. status task = Completed) ts)
     + length (filter (\<lambda>task. status task = Pending) ts) = length ts"
proof (induction ts)
  case Nil
  show ?case by simp
next
  case (Cons t ts)
  then show ?case by (cases "status t") simp_all
qed

text \<open>
  Claim C5: for every collection, \<open>completedTasks + pendingTasks = totalTasks\<close>, and the
  values of \<open>categoryCounts\<close> and of \<open>priorityCounts\<close> each add up to \<open>totalTasks\<close>.
  Each dictionary has every key once, \<open>totalTasks\<close> is the length of the collection and
  \<open>pendingTasks\<close> is the number of pending tasks.
\<close>

theorem statistics_are_consistent:
  "completedTasks (selectTaskStatistics st) + pendingTasks (selectTaskStatistics st)
     = totalTasks (selectTaskStatistics st)
   \<and> sum_list (map snd (categoryCounts (selectTaskStatistics st)))
     = totalTasks (selectTaskStatistics st)
   \<and> sum_list (map snd (priorityCounts (selectTaskStatistics st)))
     = totalTasks (selectTaskStatistics st)
   \<and> distinct (map fst (categoryCounts (selectTaskStatistics st)))
   \<and> distinct (map fst (priorityCounts (selectTaskStatistics st)))
   \<and> totalTasks (selectTaskStatistics st) = int (length (tasks st))
   \<and> pendingTasks (selectTaskStatistics st)
     = int (length (filter (\<lambda>task. status task = Pending) (tasks st)))"
proof -
  have "int (length (tasks st)) - int (length (filter (\<lambda>task. status task = Completed) (tasks st)))
      = int (length (filter (\<lambda>task. status task = Pending) (tasks st)))"
    using filter_status_split [of "tasks st"] by linarith
  then show ?thesis
    by (simp add: selectTaskStatistics_def selectAllTasks_def Let_def sum_list_fold_countUp
        distinct_fold_countUp)
qed

theorem statistics_are_consistent_witness:
  "selectTaskStatistics (state seededWorld) =
     \<lparr>totalTasks = 7, completedTasks = 2, pendingTasks = 5,
      categoryCounts = [(Work, 3), (Personal, 1), (Shopping, 1), (Health, 1), (Finance, 1)],
      priorityCounts = [(High, 3), (Medium, 3), (Low, 1)]\<rparr>
   \<and> sum_list (map snd (categoryCounts (selectTaskStatistics (state seededWorld)))) = 7
   \<and> sum_list (map snd (priorityCounts (selectTaskStatistics (state seededWorld)))) = 7"
proof -
  have "selectTaskStatistics (state seededWorld) =
     \<lparr>totalTasks = 7, completedTasks = 2, pendingTasks = 5,
      categoryCounts = [(Work, 3), (Personal, 1), (Shopping, 1), (Health, 1), (Finance, 1)],
      priorityCounts = [(High, 3), (Medium, 3), (Low, 1)]\<rparr>"
    by (simp add: selectTaskStatistics_def selectAllTasks_def seeded_state sampleTasks_def
        countUp_def)
  then show ?thesis
    using statistics_are_consistent [of "state seededWorld"] by simp
qed

text \<open>
  Claim C7: toggling the same id twice gives back the state before the first toggle, so
  every task has its former status and the collection is the same. One toggle of a pending
  task makes it completed and raises \<open>completedTasks\<close> by exactly 1; the task toggled is
  the one \<^verbatim>\<open>selectTaskById\<close> finds.
\<close>

theorem toggleTaskStatus_involution:
  "state (toggleTaskStatus i (toggleTaskStatus i w)) = state w
   \<and> tasks (state (toggleTaskStatus i (toggleTaskStatus i w))) = tasks (state w)
   \<and> map status (tasks (state (toggleTaskStatus i (toggleTaskStatus i w))))
       = map status (tasks (state w))
   \<and> (\<forall>t. selectTaskById i (state w) = Some t \<and> status t = Pending \<longrightarrow>
        selectTaskById i (state (toggleTaskStatus i w)) = Some (t\<lparr>status := Completed\<rparr>)
        \<and> completedTasks (selectTaskStatistics (state (toggleTaskStatus i w)))
            = completedTasks (selectTaskStatistics (state w)) + 1)"
proof -
  have "selectTaskById i (state (toggleTaskStatus i w)) = Some (t\<lparr>status := Completed\<rparr>)
        \<and> completedTasks (selectTaskStatistics (state (toggleTaskStatus i w)))
            = completedTasks (selectTaskStatistics (state w)) + 1"
    if t: "selectTaskById i (state w) = Some t" and p: "status t = Pending" for t
  proof -
    let ?ts = "tasks (state w)"
    from t obtain n where n: "findIndex (\<lambda>task. task_id task = i) ?ts = Some n"
      and tn: "?ts ! n = t"
      by (auto simp: selectTaskById_def find_findIndex split: option.splits)
    have len: "n < length ?ts" and idn: "task_id (?ts ! n) = i"
      using n by (simp_all add: findIndex_Some)
    have tg: "toggled t = t\<lparr>status := Completed\<rparr>"
      using p by (simp add: toggled_def)
    have "findIndex (\<lambda>task. task_id task = i) (?ts[n := toggled t]) = Some n"
      using n idn tn by (intro findIndex_update) (simp_all add: toggled_def)
    then have a: "selectTaskById i (state (toggleTaskStatus i w)) = Some (t\<lparr>status := Completed\<rparr>)"
      using len tn tg by (simp add: selectTaskById_def find_findIndex state_toggle_Some [OF n])
    have b: "completedTasks (selectTaskStatistics (state (toggleTaskStatus i w)))
            = completedTasks (selectTaskStatistics (state w)) + 1"
      using len tn tg p
      by (simp add: selectTaskStatistics_def selectAllTasks_def Let_def
          state_toggle_Some [OF n] length_filter_update)
    from a b show ?thesis ..
  qed
  then show ?thesis
    by (simp add: state_toggle_twice)
qed

theorem toggleTaskStatus_involution_witness:
  "selectTaskById 1 (state seededWorld) = Some (hd sampleTasks)
   \<and> status (hd sampleTasks) = Pending
   \<and> selectTaskById 1 (state (toggleTaskStatus 1 seededWorld))
       = Some ((hd sampleTasks)\<lparr>status := Completed\<rparr>)
   \<and> completedTasks (selectTaskStatistics (state seededWorld)) = 2
   \<and> completedTasks (selectTaskStatistics (state (toggleTaskStatus 1 seededWorld))) = 3
   \<and> tasks (state (toggleTaskStatus 1 (toggleTaskStatus 1 seededWorld))) = sampleTasks"
proof -
  have a: "selectTaskById 1 (state seededWorld) = Some (hd sampleTasks)"
    by (simp add: selectTaskById_def seeded_state sampleTasks_def)
  have b: "status (hd sampleTasks) = Pending"
    by (simp add: sampleTasks_def)
  have c: "completedTasks (selectTaskStatistics (state seededWorld)) = 2"
    by (simp add: selectTaskStatistics_def selectAllTasks_def seeded_state sampleTasks_def)
  show ?thesis
    using toggleTaskStatus_involution [of 1 seededWorld] a b c
    by (simp add: seeded_state)
qed

section \<open>Searching by title\<close>

lemma trim_empty: "trim s = [] \<longleftrightarrow> (\<forall>c\<in>set s. isWhiteSpace c)"
proof
  assume "trim s = []"
  then have "\<forall>c\<in>set (dropWhile isWhiteSpace s). isWhiteSpace c"
    by (simp add: trim_def)
  then have "dropWhile isWhiteSpace s = []"
    by (metis hd_dropWhile hd_in_set)
  then show "\<forall>c\<in>set s. isWhiteSpace c"
    by simp
next
  assume "\<forall>c\<in>set s. isWhiteSpace c"
  then show "trim s = []"
    by (auto simp: trim_def dest: set_dropWhileD)
qed

lemma js_includes_sublist: "js_includes s t \<longleftrightarrow> sublist t s"
  by (induction s) (simp_all add: sublist_Cons_right)

text \<open>
  Claim C8: a search term that is empty or has white space only selects the whole
  collection. Any other term selects exactly the tasks whose lower-cased title has the
  lower-cased term as a contiguous part, so it selects nothing when no title matches.
\<close>

theorem search_term_selects_matching_titles:
  "((\<forall>c\<in>set searchTerm. isWhiteSpace c) \<longrightarrow>
      selectTasksBySearchTerm searchTerm st = tasks st)
   \<and> (\<not> (\<forall>c\<in>set searchTerm. isWhiteSpace c) \<longrightarrow>
      selectTasksBySearchTerm searchTerm st
        = filter (\<lambda>task. sublist (toLowerCase searchTerm) (toLowerCase (title task))) (tasks st))
   \<and> (\<not> (\<forall>c\<in>set searchTerm. isWhiteSpace c)
      \<and> (\<forall>task\<in>set (tasks st). \<not> sublist (toLowerCase searchTerm) (toLowerCase (title task)))
      \<longrightarrow> selectTasksBySearchTerm searchTerm st = [])"
  by (auto simp: selectTasksBySearchTerm_def trim_empty js_includes_sublist Let_def
      filter_empty_conv)

theorem search_term_selects_matching_titles_witness:
  "selectTasksBySearchTerm [] busy = tasks busy
   \<and> selectTasksBySearchTerm ''  '' busy = tasks busy
   \<and> map task_id (selectTasksBySearchTerm ''BUG'' busy) = [1, 3]
   \<and> map task_id (selectTasksBySearchTerm '' in'' busy) = [2]
   \<and> selectTasksBySearchTerm ''xyz'' busy = []"
proof -
  have a: "\<forall>c\<in>set []. isWhiteSpace c" and b: "\<forall>c\<in>set ''  ''. isWhiteSpace c"
    by (simp_all add: isWhiteSpace_def)
  have c: "\<not> (\<forall>c\<in>set ''BUG''. isWhiteSpace c)" and d: "\<not> (\<forall>c\<in>set '' in''. isWhiteSpace c)"
    and e: "\<not> (\<forall>c\<in>set ''xyz''. isWhiteSpace c)"
    by (simp_all add: isWhiteSpace_def)
  have f: "map task_id (filter (\<lambda>task. sublist (toLowerCase ''BUG'') (toLowerCase (title task)))
      (tasks busy)) = [1, 3]"
    by code_simp
  have g: "map task_id (filter (\<lambda>task. sublist (toLowerCase '' in'') (toLowerCase (title task)))
      (tasks busy)) = [2]"
    by code_simp
  have h: "\<forall>task\<in>set (tasks busy). \<not> sublist (toLowerCase ''xyz'') (toLowerCase (title task))"
    by code_simp
  show ?thesis
    using search_term_selects_matching_titles [of "[]" busy]
      search_term_selects_matching_titles [of "''  ''" busy]
      search_term_selects_matching_titles [of "''BUG''" busy]
      search_term_selects_matching_titles [of "'' in''" busy]
      search_term_selects_matching_titles [of "''xyz''" busy]
      a b c d e f g h
    by simp
qed

section \<open>Sorting by a field\<close>

lemma compare_text_Asc:
  assumes "fld \<noteq> F_deadline" and "fld \<noteq> F_priority"
  shows "compareByField getTime fld Asc a b \<le> 0 \<longleftrightarrow> textKey fld a \<le> textKey fld b"
  using assms by (auto simp: compareByField_def textKey_def Let_def)

lemma compare_text_Desc:
  assumes "fld \<noteq> F_deadline" and "fld \<noteq> F_priority"
  shows "compareByField getTime fld Desc a b = - compareByField getTime fld Asc a b"
  using assms by (simp add: compareByField_def Let_def)

lemma toLowerCaseUnit_digit: "d < 10 \<Longrightarrow> toLowerCaseUnit (digitChar d) = digitChar d"
  by (simp add: toLowerCaseUnit_def digitChar_def Let_def)

lemma toLowerCase_digits: "toLowerCase (digits n) = digits n"
proof (induction n rule: digits.induct)
  case (1 n)
  show ?case
  proof (cases "n < 10")
    case True
    then show ?thesis
      by (simp add: digits.simps [of n] toLowerCase_def toLowerCaseUnit_digit)
  next
    case False
    with 1 have "toLowerCase (digits (n div 10)) = digits (n div 10)"
      by simp
    with False show ?thesis
      by (simp add: digits.simps [of n] toLowerCase_def toLowerCaseUnit_digit)
  qed
qed

lemma toLowerCase_String_number: "toLowerCase (String_number n) = String_number n"
proof -
  have "toLowerCaseUnit CHR ''-'' = CHR ''-''"
    by (simp add: toLowerCaseUnit_def)
  then show ?thesis
    using toLowerCase_digits by (simp add: String_number_def toLowerCase_def)
qed

text \<open>
  Claim C6: for a field other than \<^verbatim>\<open>deadline\<close> and \<^verbatim>\<open>priority\<close>,
  \<^verbatim>\<open>selectTasksSortedByField\<close> ascending is the stable sort by the lower-cased text of
  the field under the lexicographic order of strings; descending is the sort under the
  negated ascending comparator, and its result is non-increasing in that key. For the field
  \<^verbatim>\<open>id\<close> the key is the decimal text of the id, so the task with id 10 comes before the
  task with id 2.
\<close>
theorem sort_by_text_field:
  assumes "fld \<noteq> F_deadline" and "fld \<noteq> F_priority"
  shows "selectTasksSortedByField getTime fld Asc st = sort_key (textKey fld) (tasks st)
    \<and> sorted (map (textKey fld) (selectTasksSortedByField getTime fld Asc st))
    \<and> selectTasksSortedByField getTime fld Desc st
        = js_sort (\<lambda>a b. - compareByField getTime fld Asc a b) (tasks st)
    \<and> sorted_wrt (\<lambda>a b. textKey fld b \<le> textKey fld a)
        (selectTasksSortedByField getTime fld Desc st)
    \<and> set (selectTasksSortedByField getTime fld dir st) = set (tasks st)
    \<and> length (selectTasksSortedByField getTime fld dir st) = length (tasks st)
    \<and> textKey F_id a = String_number (task_id a)
    \<and> map task_id (selectTasksSortedByField getTime F_id Asc
          \<lparr>tasks = [newTask 2 payload, newTask 10 payload], nextId = 11, deletedIds = []\<rparr>)
        = [10, 2]"
proof -
  have asc: "selectTasksSortedByField getTime fld Asc st = sort_key (textKey fld) (tasks st)"
    unfolding selectTasksSortedByField_def selectAllTasks_def
    by (rule js_sort_sort_key) (rule compare_text_Asc [OF assms])
  have desc: "selectTasksSortedByField getTime fld Desc st
        = js_sort (\<lambda>a b. - compareByField getTime fld Asc a b) (tasks st)"
  proof -
    have "compareByField getTime fld Desc = (\<lambda>a b. - compareByField getTime fld Asc a b)"
      by (intro ext) (rule compare_text_Desc [OF assms])
    then show ?thesis
      by (simp add: selectTasksSortedByField_def selectAllTasks_def)
  qed
  have "sorted_wrt (\<lambda>a b. textKey fld b \<le> textKey fld a)
      (js_sort (\<lambda>a b. - compareByField getTime fld Asc a b) (tasks st))"
  proof (rule sorted_wrt_js_sort)
    show "(- compareByField getTime fld Asc x y \<le> 0) = (textKey fld y \<le> textKey fld x)" for x y
      using assms by (auto simp: compareByField_def textKey_def Let_def)
  qed auto
  then have down: "sorted_wrt (\<lambda>a b. textKey fld b \<le> textKey fld a)
        (selectTasksSortedByField getTime fld Desc st)"
    by (simp add: desc)
  have digits: "textKey F_id a = String_number (task_id a)"
    by (simp add: textKey_def toLowerCase_String_number)
  have "String_number 2 = ''2''" and "String_number 10 = ''10''"
    and "toLowerCase ''2'' = ''2''" and "toLowerCase ''10'' = ''10''"
    by code_simp+
  then have k: "textKey F_id (newTask 2 payload) = ''2''"
      "textKey F_id (newTask 10 payload) = ''10''"
    by (simp_all add: textKey_def newTask_def)
  have le: "\<not> ''2'' \<le> ''10''"
    by code_simp
  have ex: "map task_id (selectTasksSortedByField getTime F_id Asc
          \<lparr>tasks = [newTask 2 payload, newTask 10 payload], nextId = 11, deletedIds = []\<rparr>)
        = [10, 2]"
    using js_sort_sort_key [of "compareByField getTime F_id Asc" "textKey F_id",
        OF compare_text_Asc [of F_id]]
    by (simp add: selectTasksSortedByField_def selectAllTasks_def k le)
      (simp add: newTask_def)
  show ?thesis
    using asc desc down digits ex
    by (simp add: selectTasksSortedByField_def selectAllTasks_def set_js_sort length_js_sort)
qed

theorem sort_by_text_field_witness:
  "map task_id (tasks mixed) = [2, 10, 1]
   \<and> map task_id (selectTasksSortedByField noDates F_id Asc mixed) = [1, 10, 2]
   \<and> map task_id (selectTasksSortedByField noDates F_id Desc mixed) = [2, 10, 1]
   \<and> map title (selectTasksSortedByField noDates F_title Asc mixed) = [''Apple'', ''pear'', ''PEAR'']
   \<and> map title (selectTasksSortedByField noDates F_title Desc mixed) = [''pear'', ''PEAR'', ''Apple'']"
proof -
  have a: "F_id \<noteq> F_deadline" "F_id \<noteq> F_priority" "F_title \<noteq> F_deadline"
      "F_title \<noteq> F_priority"
    by simp_all
  have b: "map task_id (sort_key (textKey F_id) (tasks mixed)) = [1, 10, 2]"
    by code_simp
  have c: "map task_id (js_sort (\<lambda>a b. - compareByField noDates F_id Asc a b) (tasks mixed))
      = [2, 10, 1]"
    by code_simp
  have d: "map title (sort_key (textKey F_title) (tasks mixed)) = [''Apple'', ''pear'', ''PEAR'']"
    by code_simp
  have e: "map title (js_sort (\<lambda>a b. - compareByField noDates F_title Asc a b) (tasks mixed))
      = [''pear'', ''PEAR'', ''Apple'']"
    by code_simp
  have f: "map task_id (tasks mixed) = [2, 10, 1]"
    by (simp add: mixed_def newTask_def)
  show ?thesis
    using sort_by_text_field [OF a(1,2), of noDates mixed]
      sort_by_text_field [OF a(3,4), of noDates mixed] b c d e f
    by simp
qed

end
